theory Spec2Isabelle
  imports Main "HOL-Library.AList"
begin

section \<open>dnsthing: the host registry and the managed hosts-file section\<close>

text \<open>
  A shallow embedding of \<^verbatim>\<open>src/dnsthing.py\<close>. Python dictionaries are association
  lists in insertion order (\<open>AList.update\<close> overwrites a key in place or appends a new
  one, \<open>AList.delete\<close> removes a key), since the order of \<^verbatim>\<open>items()\<close> decides the
  order of the rendered lines. Every method takes the object state and returns the
  raised exception, if any, together with the state as the method left it: a Python
  exception does not undo the mutations made before it.
\<close>

subsection \<open>Data\<close>

datatype error = AttributeError | KeyError | NotFound | APIError | ConnectionError | OSError

text \<open>
  What the methods read of a docker container object: \<^verbatim>\<open>container.name\<close>,
  \<^verbatim>\<open>container.id\<close> and \<^verbatim>\<open>container.attrs['NetworkSettings']\<close>. The field
  \<open>c_networks\<close> is \<open>None\<close> when the key \<^verbatim>\<open>'Networks'\<close> is missing there, and otherwise
  the items of that dictionary, each network name with its \<^verbatim>\<open>'IPAddress'\<close>.
\<close>

record container =
  c_name :: string
  c_id :: string
  c_networks :: "(string \<times> string) list option"

text \<open>
  The value bound to \<^verbatim>\<open>container\<close> in the event loop: the inspected container object,
  or the empty dictionary \<^verbatim>\<open>{}\<close> that line 59 puts in its place.
\<close>

datatype pyobj = EmptyDict | ContainerObj container

text \<open>The dictionary \<^verbatim>\<open>this\<close> built by \<^verbatim>\<open>register\<close> (lines 107 to 111).\<close>

record hostrec =
  h_name :: string
  h_id :: string
  h_networks :: "(string \<times> string) list"

text \<open>
  What \<^verbatim>\<open>update_hosts\<close> does to the outside world, in order: it is entered (the log
  line of line 146), it writes the file (line 169), it calls \<^verbatim>\<open>onupdate\<close> (line 172).
\<close>

datatype effect = WritingHosts | Wrote string | OnUpdate

text \<open>
  The attributes of a \<^verbatim>\<open>hostRegistry\<close> object, with the part of the world it acts on:
  \<open>hostsfile\<close> holds the content of the file at the configured path, \<open>None\<close> when the
  file cannot be opened for reading and writing; \<open>onupdate\<close> says whether a callback is
  configured; \<open>trace\<close> records the effects so far.
\<close>

record hostRegistry =
  domain :: string
  onupdate :: bool
  byname :: "(string \<times> hostrec) list"
  byid :: "(string \<times> hostrec) list"
  hostsfile :: "string option"
  trace :: "effect list"

definition hostfile_start_marker :: string where
  "hostfile_start_marker = ''# === start dnsthing ===''"

definition hostfile_end_marker :: string where
  "hostfile_end_marker = ''# === end dnsthing ===''"

text \<open>\<^verbatim>\<open>hostRegistry.__init__\<close>: both dictionaries start empty.\<close>

definition init :: "string option \<Rightarrow> string \<Rightarrow> bool \<Rightarrow> hostRegistry" where
  "init file d upd =
     \<lparr>domain = d, onupdate = upd, byname = [], byid = [], hostsfile = file, trace = []\<rparr>"

subsection \<open>Dictionaries and strings\<close>

text \<open>\<^verbatim>\<open>k in d\<close> for a dictionary.\<close>

definition has_key :: "'k \<Rightarrow> ('k \<times> 'v) list \<Rightarrow> bool" where
  "has_key k d = (k \<in> set (map fst d))"

text \<open>
  Lines 93 to 95 (and 131 to 133): the name, without its first character when that is
  a slash.
\<close>

fun strip_slash :: "string \<Rightarrow> string" where
  "strip_slash [] = []"
| "strip_slash (c # cs) = (if c = CHR ''/'' then cs else c # cs)"

text \<open>
  The characters that Python's \<^verbatim>\<open>str.strip()\<close> removes, among the code points below
  256: tab, line feed, vertical tab, form feed, carriage return, the four separators
  28 to 31, space, next line (133) and no-break space (160).
\<close>

definition is_space :: "char \<Rightarrow> bool" where
  "is_space c = ((of_char c :: nat) \<in> set [9, 10, 11, 12, 13, 28, 29, 30, 31, 32, 133, 160])"

definition lstrip :: "string \<Rightarrow> string" where
  "lstrip s = dropWhile is_space s"

definition rstrip :: "string \<Rightarrow> string" where
  "rstrip s = rev (dropWhile is_space (rev s))"

definition strip :: "string \<Rightarrow> string" where
  "strip s = rstrip (lstrip s)"

text \<open>
  The file is opened in text mode (\<^verbatim>\<open>open(fname, "r+")\<close>, line 19), which reads with
  universal newlines: a carriage return followed by a line feed, and a carriage return
  alone, each end a line and are handed to the program as one line feed.
\<close>

fun universal_newlines :: "string \<Rightarrow> string" where
  "universal_newlines [] = []"
| "universal_newlines [c] = [if c = CHR 0x0D then CHR 0x0A else c]"
| "universal_newlines (c # d # cs) =
     (if c = CHR 0x0D \<and> d = CHR 0x0A then CHR 0x0A # universal_newlines cs
      else if c = CHR 0x0D then CHR 0x0A # universal_newlines (d # cs)
      else c # universal_newlines (d # cs))"

text \<open>
  \<^verbatim>\<open>f.readlines()\<close>: the translated content cut after every line feed, the line feed
  kept; a last line without one is kept too.
\<close>

fun readlines_from :: "string \<Rightarrow> string \<Rightarrow> string list" where
  "readlines_from cur [] = (if cur = [] then [] else [cur])"
| "readlines_from cur (c # cs) =
     (if c = CHR 0x0A then (cur @ [c]) # readlines_from [] cs
      else readlines_from (cur @ [c]) cs)"

definition readlines :: "string \<Rightarrow> string list" where
  "readlines s = readlines_from [] (universal_newlines s)"

text \<open>\<^verbatim>\<open>sep.join(xs)\<close>.\<close>

fun join :: "string \<Rightarrow> string list \<Rightarrow> string" where
  "join sep [] = []"
| "join sep [x] = x"
| "join sep (x # y # ys) = x @ sep @ join sep (y # ys)"

text \<open>\<^verbatim>\<open>xs.index(x)\<close>: the first position of \<open>x\<close>; \<open>None\<close> stands for ValueError.\<close>

fun index_of :: "'a \<Rightarrow> 'a list \<Rightarrow> nat option" where
  "index_of x [] = None"
| "index_of x (y # ys) = (if y = x then Some 0 else map_option Suc (index_of x ys))"

text \<open>
  \<^verbatim>\<open>del xs[i:j]\<close> for \<open>i\<close> and \<open>j\<close> that are not negative: nothing is deleted when
  \<open>j \<le> i\<close>.
\<close>

definition del_slice :: "nat \<Rightarrow> nat \<Rightarrow> 'a list \<Rightarrow> 'a list" where
  "del_slice i j xs = take i xs @ drop (max i j) xs"

subsection \<open>The registry index\<close>

text \<open>
  Lines 113 to 117: the loop over the container's networks, which stores each address
  that is not the empty string.
\<close>

definition collect_networks :: "(string \<times> string) list \<Rightarrow> (string \<times> string) list" where
  "collect_networks nws =
     fold (\<lambda>(nwname, ip) acc. if ip \<noteq> [] then AList.update nwname ip acc else acc) nws []"

text \<open>
  \<^verbatim>\<open>register\<close>, lines 88 to 123. On \<^verbatim>\<open>{}\<close> the attribute access of line 93 raises
  AttributeError.
\<close>

fun register :: "pyobj \<Rightarrow> hostRegistry \<Rightarrow> error option \<times> hostRegistry" where
  "register EmptyDict self = (Some AttributeError, self)"
| "register (ContainerObj c) self =
     (let name = strip_slash (c_name c) in
      if has_key name (byname self) then (None, self)
      else case c_networks c of
        None \<Rightarrow> (None, self)
      | Some nws \<Rightarrow>
          (let this = \<lparr>h_name = name, h_id = c_id c, h_networks = collect_networks nws\<rparr> in
           if h_networks this \<noteq> []
           then (None, self\<lparr>byid := AList.update (c_id c) this (byid self),
                             byname := AList.update name this (byname self)\<rparr>)
           else (None, self)))"

text \<open>
  \<^verbatim>\<open>unregister\<close>, lines 128 to 139. \<^verbatim>\<open>del self.byname[name]\<close> raises KeyError when
  the name is not a key, after \<^verbatim>\<open>del self.byid[container.id]\<close> has been done.
\<close>

fun unregister :: "pyobj \<Rightarrow> hostRegistry \<Rightarrow> error option \<times> hostRegistry" where
  "unregister EmptyDict self = (Some AttributeError, self)"
| "unregister (ContainerObj c) self =
     (let name = strip_slash (c_name c) in
      if has_key (c_id c) (byid self)
      then (let self1 = self\<lparr>byid := AList.delete (c_id c) (byid self)\<rparr> in
            if has_key name (byname self1)
            then (None, self1\<lparr>byname := AList.delete name (byname self1)\<rparr>)
            else (Some KeyError, self1))
      else (None, self))"

subsection \<open>The file section editor\<close>

text \<open>
  Lines 152 to 157: the first start marker and the first end marker are looked up, and
  the slice from the one to the other is deleted; a missing marker (ValueError) leaves
  the lines as they are.
\<close>

definition remove_section :: "string list \<Rightarrow> string list" where
  "remove_section lines =
     (case index_of hostfile_start_marker lines of
        None \<Rightarrow> lines
      | Some section_start \<Rightarrow>
          (case index_of hostfile_end_marker lines of
             None \<Rightarrow> lines
           | Some section_end \<Rightarrow> del_slice section_start (section_end + 1) lines))"

text \<open>Lines 159 to 163: one line for each network of each name in \<^verbatim>\<open>byname\<close>.\<close>

definition entries :: "hostRegistry \<Rightarrow> string list" where
  "entries self =
     concat (map (\<lambda>(name, data).
        map (\<lambda>(nwname, address).
               address @ '' '' @ name @ ''.'' @ nwname @ ''.'' @ domain self)
            (h_networks data)) (byname self))"

definition new_section :: "hostRegistry \<Rightarrow> string list" where
  "new_section self = [hostfile_start_marker] @ entries self @ [hostfile_end_marker]"

text \<open>Lines 150 to 165: from the lines as read to the lines as written.\<close>

definition new_hostsfile :: "hostRegistry \<Rightarrow> string list \<Rightarrow> string list" where
  "new_hostsfile self raw = remove_section (map strip raw) @ new_section self"

text \<open>
  \<^verbatim>\<open>update_hosts\<close>, lines 142 to 172. When the file cannot be opened, \<^verbatim>\<open>lock_file\<close>
  raises, nothing is written and line 171 is not reached.
\<close>

definition update_hosts :: "hostRegistry \<Rightarrow> error option \<times> hostRegistry" where
  "update_hosts self =
     (let self0 = self\<lparr>trace := trace self @ [WritingHosts]\<rparr> in
      case hostsfile self0 of
        None \<Rightarrow> (Some OSError, self0)
      | Some content \<Rightarrow>
          (let written = join [CHR 0x0A] (new_hostsfile self0 (readlines content));
               self1 = self0\<lparr>hostsfile := Some written, trace := trace self0 @ [Wrote written]\<rparr>
           in if onupdate self1
              then (None, self1\<lparr>trace := trace self1 @ [OnUpdate]\<rparr>)
              else (None, self1)))"

subsection \<open>The event reconciler\<close>

text \<open>Sequencing: the second method runs when the first has not raised.\<close>

definition and_then ::
  "error option \<times> hostRegistry \<Rightarrow> (hostRegistry \<Rightarrow> error option \<times> hostRegistry)
     \<Rightarrow> error option \<times> hostRegistry" where
  "and_then r f = (case r of (None, self) \<Rightarrow> f self | (Some e, self) \<Rightarrow> (Some e, self))"

definition handle_start :: "pyobj \<Rightarrow> hostRegistry \<Rightarrow> error option \<times> hostRegistry" where
  "handle_start c self = and_then (register c self) update_hosts"

definition handle_die :: "pyobj \<Rightarrow> hostRegistry \<Rightarrow> error option \<times> hostRegistry" where
  "handle_die c self = and_then (unregister c self) update_hosts"

text \<open>\<^verbatim>\<open>scan\<close>, lines 79 to 86, over the containers that the client lists.\<close>

fun register_all :: "container list \<Rightarrow> hostRegistry \<Rightarrow> error option \<times> hostRegistry" where
  "register_all [] self = (None, self)"
| "register_all (c # cs) self = and_then (register (ContainerObj c) self) (register_all cs)"

definition scan :: "container list \<Rightarrow> hostRegistry \<Rightarrow> error option \<times> hostRegistry" where
  "scan running self = and_then (register_all running self) update_hosts"

text \<open>
  An event of the stream, with what \<^verbatim>\<open>self.client.containers.get(event['id'])\<close> does
  when the loop reaches it: it returns a container or raises.
\<close>

record event =
  ev_Type :: string
  ev_Action :: string
  ev_id :: string

type_synonym delivery = "event \<times> (error + container)"

text \<open>
  The loop body, lines 50 to 69. Only NotFound is caught; \<^verbatim>\<open>getattr\<close> finds a handler
  for the actions \<^verbatim>\<open>start\<close> and \<^verbatim>\<open>die\<close>.
\<close>

definition dispatch :: "event \<Rightarrow> pyobj \<Rightarrow> hostRegistry \<Rightarrow> error option \<times> hostRegistry" where
  "dispatch ev c self =
     (if ev_Action ev = ''start'' then handle_start c self
      else if ev_Action ev = ''die'' then handle_die c self
      else (None, self))"

definition process_event :: "delivery \<Rightarrow> hostRegistry \<Rightarrow> error option \<times> hostRegistry" where
  "process_event d self =
     (case d of (ev, got) \<Rightarrow>
        if ev_Type ev \<noteq> ''container'' then (None, self)
        else (case got of
                Inr c \<Rightarrow> dispatch ev (ContainerObj c) self
              | Inl NotFound \<Rightarrow> dispatch ev EmptyDict self
              | Inl e \<Rightarrow> (Some e, self)))"

text \<open>The loop of line 49 over the events delivered so far; it ends at the first raise.\<close>

fun events_loop :: "delivery list \<Rightarrow> hostRegistry \<Rightarrow> error option \<times> hostRegistry" where
  "events_loop [] self = (None, self)"
| "events_loop (d # ds) self = and_then (process_event d self) (events_loop ds)"

definition run :: "container list \<Rightarrow> delivery list \<Rightarrow> hostRegistry \<Rightarrow> error option \<times> hostRegistry" where
  "run running ds self = and_then (scan running self) (events_loop ds)"

subsection \<open>Sequences of index operations\<close>

datatype op = Register pyobj | Unregister pyobj

fun apply_op :: "op \<Rightarrow> hostRegistry \<Rightarrow> error option \<times> hostRegistry" where
  "apply_op (Register c) self = register c self"
| "apply_op (Unregister c) self = unregister c self"

fun apply_ops :: "op list \<Rightarrow> hostRegistry \<Rightarrow> error option \<times> hostRegistry" where
  "apply_ops [] self = (None, self)"
| "apply_ops (x # xs) self = and_then (apply_op x self) (apply_ops xs)"

subsection \<open>Properties of the index\<close>

text \<open>
  Lock-step: every record stored in \<^verbatim>\<open>byid\<close> is what \<^verbatim>\<open>byname\<close> holds under the name
  of the record, and every record stored in \<^verbatim>\<open>byname\<close> is what \<^verbatim>\<open>byid\<close> holds under
  the id of the record.
\<close>

definition lockstep :: "hostRegistry \<Rightarrow> bool" where
  "lockstep self =
     (list_all (\<lambda>(i, r). map_of (byname self) (h_name r) = Some r) (byid self) \<and>
      list_all (\<lambda>(n, r). map_of (byid self) (h_id r) = Some r) (byname self))"

text \<open>The container objects that a sequence of operations is applied to.\<close>

fun op_containers :: "op list \<Rightarrow> container list" where
  "op_containers [] = []"
| "op_containers (Register (ContainerObj c) # xs) = c # op_containers xs"
| "op_containers (Unregister (ContainerObj c) # xs) = c # op_containers xs"
| "op_containers (_ # xs) = op_containers xs"

fun only_containers :: "op list \<Rightarrow> bool" where
  "only_containers [] = True"
| "only_containers (Register (ContainerObj c) # xs) = only_containers xs"
| "only_containers (Unregister (ContainerObj c) # xs) = only_containers xs"
| "only_containers (_ # xs) = False"

text \<open>No container id comes with two different derived names.\<close>

definition one_name_per_id :: "container list \<Rightarrow> bool" where
  "one_name_per_id cs =
     list_all (\<lambda>x. list_all (\<lambda>y. c_id x \<noteq> c_id y \<or>
        strip_slash (c_name x) = strip_slash (c_name y)) cs) cs"

definition consistent :: "container set \<Rightarrow> bool" where
  "consistent C \<longleftrightarrow>
     (\<forall>x\<in>C. \<forall>y\<in>C. c_id x = c_id y \<longrightarrow> strip_slash (c_name x) = strip_slash (c_name y))"

text \<open>
  The invariant behind lock-step, for the containers \<open>C\<close> that the operations range
  over: keys are distinct, each record sits under its own id and its own name in both
  dictionaries, and the record of an id carries the derived name of every container of
  \<open>C\<close> with that id.
\<close>

definition wf_index :: "container set \<Rightarrow> hostRegistry \<Rightarrow> bool" where
  "wf_index C self \<longleftrightarrow>
     distinct (map fst (byid self)) \<and> distinct (map fst (byname self)) \<and>
     (\<forall>i r. map_of (byid self) i = Some r \<longrightarrow>
        h_id r = i \<and> map_of (byname self) (h_name r) = Some r) \<and>
     (\<forall>n r. map_of (byname self) n = Some r \<longrightarrow>
        h_name r = n \<and> map_of (byid self) (h_id r) = Some r) \<and>
     (\<forall>i r. map_of (byid self) i = Some r \<longrightarrow>
        (\<forall>c\<in>C. c_id c = i \<longrightarrow> strip_slash (c_name c) = h_name r))"

text \<open>
  A container without an addressed network: the key \<^verbatim>\<open>'Networks'\<close> is missing, or the
  dictionary is empty, or every address in it is the empty string.
\<close>

definition no_address :: "container \<Rightarrow> bool" where
  "no_address c =
     (case c_networks c of None \<Rightarrow> True | Some nws \<Rightarrow> list_all (\<lambda>(nwname, ip). ip = []) nws)"

text \<open>A record with at least one addressed network, and an index of such records only.\<close>

definition addressed :: "hostrec \<Rightarrow> bool" where
  "addressed r = list_ex (\<lambda>(nwname, ip). ip \<noteq> []) (h_networks r)"

definition all_addressed :: "hostRegistry \<Rightarrow> bool" where
  "all_addressed self =
     (list_all (\<lambda>(i, r). addressed r) (byid self) \<and>
      list_all (\<lambda>(n, r). addressed r) (byname self))"

subsection \<open>Facts about dictionaries\<close>

lemma has_key_map_of: "has_key k d \<longleftrightarrow> map_of d k \<noteq> None"
  by (simp add: has_key_def map_of_eq_None_iff)

lemma has_key_update: "has_key k (AList.update k v d)"
  by (simp add: has_key_map_of update_conv')

subsection \<open>What unregister does when it returns\<close>

lemma unregister_absent:
  "\<not> has_key (c_id c) (byid self) \<Longrightarrow> unregister (ContainerObj c) self = (None, self)"
  by simp

lemma unregister_present:
  assumes "has_key (c_id c) (byid self)" and "has_key (strip_slash (c_name c)) (byname self)"
  shows "unregister (ContainerObj c) self =
           (None, self\<lparr>byid := AList.delete (c_id c) (byid self),
                         byname := AList.delete (strip_slash (c_name c)) (byname self)\<rparr>)"
  using assms by (simp add: Let_def)

lemma unregister_present_name_missing:
  assumes "has_key (c_id c) (byid self)" and "\<not> has_key (strip_slash (c_name c)) (byname self)"
  shows "unregister (ContainerObj c) self =
           (Some KeyError, self\<lparr>byid := AList.delete (c_id c) (byid self)\<rparr>)"
  using assms by (simp add: Let_def)

subsection \<open>The invariant behind lock-step\<close>

lemma wf_index_init: "wf_index C (init f d u)"
  by (simp add: wf_index_def init_def)

lemma wf_index_register:
  assumes wf: "wf_index C self" and c: "c \<in> C" and con: "consistent C"
  shows "wf_index C (snd (register (ContainerObj c) self))"
proof (cases "has_key (strip_slash (c_name c)) (byname self) \<or> c_networks c = None \<or>
              collect_networks (the (c_networks c)) = []")
  case True
  then have "snd (register (ContainerObj c) self) = self"
    by (auto simp: Let_def split: option.splits)
  with wf show ?thesis by simp
next
  case False
  define name where "name = strip_slash (c_name c)"
  define this where "this = \<lparr>h_name = name, h_id = c_id c, h_networks = collect_networks (the (c_networks c))\<rparr>"
  from False have fresh_name: "map_of (byname self) name = None"
    by (simp add: has_key_map_of name_def)
  have fresh_id: "map_of (byid self) (c_id c) = None"
  proof (rule ccontr)
    assume "map_of (byid self) (c_id c) \<noteq> None"
    then obtain r where r: "map_of (byid self) (c_id c) = Some r" by auto
    with wf c have "strip_slash (c_name c) = h_name r" 
      unfolding wf_index_def by blast
    moreover from wf r have "map_of (byname self) (h_name r) = Some r"
      unfolding wf_index_def by blast
    ultimately show False using fresh_name by (simp add: name_def)
  qed
  from False have reg: "snd (register (ContainerObj c) self) =
      self\<lparr>byid := AList.update (c_id c) this (byid self),
           byname := AList.update name this (byname self)\<rparr>"
    by (auto simp: Let_def name_def this_def split: option.splits)
  have 1: "\<And>i r. map_of (byid self) i = Some r \<Longrightarrow> i \<noteq> c_id c \<and> h_name r \<noteq> name \<and> h_id r = i
               \<and> map_of (byname self) (h_name r) = Some r"
    using wf fresh_id fresh_name unfolding wf_index_def by fastforce
  have 2: "\<And>n r. map_of (byname self) n = Some r \<Longrightarrow> n \<noteq> name \<and> h_id r \<noteq> c_id c \<and> h_name r = n
               \<and> map_of (byid self) (h_id r) = Some r"
    using wf fresh_id fresh_name unfolding wf_index_def by fastforce
  have 3: "\<And>i r x. map_of (byid self) i = Some r \<Longrightarrow> x \<in> C \<Longrightarrow> c_id x = i \<Longrightarrow> strip_slash (c_name x) = h_name r"
    using wf unfolding wf_index_def by blast
  have 4: "\<And>x. x \<in> C \<Longrightarrow> c_id x = c_id c \<Longrightarrow> strip_slash (c_name x) = name"
    using con c unfolding consistent_def name_def by blast
  have d: "distinct (map fst (byid self))" "distinct (map fst (byname self))"
    using wf unfolding wf_index_def by auto
  show ?thesis
    unfolding reg wf_index_def
    using 1 2 3 4 d
    by (auto simp: update_conv' distinct_update this_def)
qed

lemma register_container_returns: "fst (register (ContainerObj c) self) = None"
  by (simp add: Let_def split: option.splits)

lemma wf_index_unregister:
  assumes wf: "wf_index C self" and c: "c \<in> C"
  shows "wf_index C (snd (unregister (ContainerObj c) self)) \<and> fst (unregister (ContainerObj c) self) = None"
proof (cases "has_key (c_id c) (byid self)")
  case False
  with wf show ?thesis by simp
next
  case True
  define name where "name = strip_slash (c_name c)"
  from True obtain r where r: "map_of (byid self) (c_id c) = Some r"
    by (auto simp: has_key_map_of)
  with wf c have nm: "h_name r = name" and rn: "map_of (byname self) name = Some r"
    unfolding wf_index_def name_def by metis+
  then have hk: "has_key name (byname self)" by (simp add: has_key_map_of)
  from True hk have un: "unregister (ContainerObj c) self =
     (None, self\<lparr>byid := AList.delete (c_id c) (byid self), byname := AList.delete name (byname self)\<rparr>)"
    by (simp add: Let_def name_def)
  have 1: "\<And>i r'. map_of (byid self) i = Some r' \<Longrightarrow> h_id r' = i
               \<and> map_of (byname self) (h_name r') = Some r'"
    using wf unfolding wf_index_def by blast
  have 2: "\<And>n r'. map_of (byname self) n = Some r' \<Longrightarrow> h_name r' = n
               \<and> map_of (byid self) (h_id r') = Some r'"
    using wf unfolding wf_index_def by blast
  have 3: "\<And>i r x. map_of (byid self) i = Some r \<Longrightarrow> x \<in> C \<Longrightarrow> c_id x = i \<Longrightarrow> strip_slash (c_name x) = h_name r"
    using wf unfolding wf_index_def by blast
  have d: "distinct (map fst (byid self))" "distinct (map fst (byname self))"
    using wf unfolding wf_index_def by auto
  have a: "\<And>i r'. map_of (byid self) i = Some r' \<Longrightarrow> i \<noteq> c_id c \<Longrightarrow> h_name r' \<noteq> name"
  proof -
    fix i r' assume h: "map_of (byid self) i = Some r'" "i \<noteq> c_id c"
    show "h_name r' \<noteq> name"
    proof
      assume "h_name r' = name"
      with 1[OF h(1)] rn have "r' = r" by simp
      with 1[OF h(1)] 1[OF r] h(2) show False by simp
    qed
  qed
  have b: "\<And>n r'. map_of (byname self) n = Some r' \<Longrightarrow> n \<noteq> name \<Longrightarrow> h_id r' \<noteq> c_id c"
  proof -
    fix n r' assume h: "map_of (byname self) n = Some r'" "n \<noteq> name"
    show "h_id r' \<noteq> c_id c"
    proof
      assume "h_id r' = c_id c"
      with 2[OF h(1)] r have "r' = r" by simp
      with 2[OF h(1)] nm h(2) show False by simp
    qed
  qed
  have "wf_index C (self\<lparr>byid := AList.delete (c_id c) (byid self), byname := AList.delete name (byname self)\<rparr>)"
    unfolding wf_index_def
    using 1 2 3 d a b
    by (auto simp: delete_conv' distinct_delete)
  with un show ?thesis by simp
qed

lemma wf_index_apply_ops:
  assumes "wf_index C self" and "set (op_containers ops) \<subseteq> C" and "consistent C"
  shows "wf_index C (snd (apply_ops ops self))"
  using assms
proof (induction ops arbitrary: self)
  case Nil
  then show ?case by simp
next
  case (Cons x xs)
  show ?case
  proof (cases x)
    case (Register p)
    show ?thesis
    proof (cases p)
      case EmptyDict
      with Register Cons.prems show ?thesis by (simp add: and_then_def)
    next
      case (ContainerObj c)
      with Register Cons.prems have c: "c \<in> C" and rest: "set (op_containers xs) \<subseteq> C" by auto
      obtain self' where r: "register (ContainerObj c) self = (None, self')"
        using register_container_returns[of c self] by (metis prod.collapse)
      with wf_index_register[OF Cons.prems(1) c Cons.prems(3)] have "wf_index C self'" by simp
      from Cons.IH[OF this rest Cons.prems(3)] show ?thesis
        using Register ContainerObj r by (simp add: and_then_def)
    qed
  next
    case (Unregister p)
    show ?thesis
    proof (cases p)
      case EmptyDict
      with Unregister Cons.prems show ?thesis by (simp add: and_then_def)
    next
      case (ContainerObj c)
      with Unregister Cons.prems have c: "c \<in> C" and rest: "set (op_containers xs) \<subseteq> C" by auto
      obtain self' where r: "unregister (ContainerObj c) self = (None, self')"
        using wf_index_unregister[OF Cons.prems(1) c] by (metis prod.collapse)
      with wf_index_unregister[OF Cons.prems(1) c] have "wf_index C self'" by simp
      from Cons.IH[OF this rest Cons.prems(3)] show ?thesis
        using Unregister ContainerObj r by (simp add: and_then_def)
    qed
  qed
qed

lemma apply_ops_returns:
  assumes "wf_index C self" and "set (op_containers ops) \<subseteq> C" and "consistent C"
    and "only_containers ops"
  shows "fst (apply_ops ops self) = None"
  using assms
proof (induction ops arbitrary: self)
  case Nil
  then show ?case by simp
next
  case (Cons x xs)
  from Cons.prems(4) obtain c where x: "x = Register (ContainerObj c) \<or> x = Unregister (ContainerObj c)"
    and oc: "only_containers xs"
    by (cases x; cases "case x of Register p \<Rightarrow> p | Unregister p \<Rightarrow> p") auto
  with Cons.prems have c: "c \<in> C" and rest: "set (op_containers xs) \<subseteq> C" by auto
  have step: "wf_index C (snd (apply_op x self)) \<and> fst (apply_op x self) = None"
    using x wf_index_register[OF Cons.prems(1) c Cons.prems(3)] register_container_returns[of c self]
      wf_index_unregister[OF Cons.prems(1) c] by auto
  then obtain self' where r: "apply_op x self = (None, self')" by (metis prod.collapse)
  with step have "wf_index C self'" by simp
  from Cons.IH[OF this rest Cons.prems(3) oc] show ?case
    using r by (simp add: and_then_def)
qed

lemma wf_index_lockstep: "wf_index C self \<Longrightarrow> lockstep self"
  unfolding wf_index_def lockstep_def list_all_iff
  by (auto dest!: map_of_is_SomeI[rotated])

lemma consistent_iff: "consistent (set cs) \<longleftrightarrow> one_name_per_id cs"
  unfolding consistent_def one_name_per_id_def list_all_iff by blast

subsection \<open>Records in the index have an addressed network\<close>

lemma set_update_subset: "set (AList.update k v al) \<subseteq> insert (k, v) (set al)"
  by (induction al) auto

lemma set_delete_subset: "set (AList.delete k al) \<subseteq> set al"
  by (auto simp: AList.delete_eq)

lemma fold_networks_skip:
  "list_all (\<lambda>(nwname, ip). ip = []) nws \<Longrightarrow>
   fold (\<lambda>(nwname, ip) acc. if ip \<noteq> [] then AList.update nwname ip acc else acc) nws acc = acc"
  by (induction nws arbitrary: acc) auto

lemma collect_networks_no_address:
  "list_all (\<lambda>(nwname, ip). ip = []) nws \<Longrightarrow> collect_networks nws = []"
  by (simp add: collect_networks_def fold_networks_skip)

lemma fold_networks_nonempty:
  "\<forall>(n, ip)\<in>set acc. ip \<noteq> [] \<Longrightarrow>
   \<forall>(n, ip)\<in>set (fold (\<lambda>(nwname, ip) acc. if ip \<noteq> [] then AList.update nwname ip acc else acc) nws acc).
      ip \<noteq> []"
proof (induction nws arbitrary: acc)
  case Nil
  then show ?case by simp
next
  case (Cons p ps)
  obtain k v where p: "p = (k, v)" by (cases p)
  show ?case
  proof (cases "v = []")
    case True
    with p Cons show ?thesis by simp
  next
    case False
    with Cons.prems set_update_subset[of k v acc]
    have "\<forall>(n, ip)\<in>set (AList.update k v acc). ip \<noteq> []" by fastforce
    from Cons.IH[OF this] p False show ?thesis by simp
  qed
qed

lemma collect_networks_addresses: "(n, ip) \<in> set (collect_networks nws) \<Longrightarrow> ip \<noteq> []"
  using fold_networks_nonempty[of "[]" nws] by (auto simp: collect_networks_def)

lemma addressed_this:
  "collect_networks nws \<noteq> [] \<Longrightarrow>
   addressed \<lparr>h_name = name, h_id = i, h_networks = collect_networks nws\<rparr>"
proof -
  assume "collect_networks nws \<noteq> []"
  then obtain n ip where "(n, ip) \<in> set (collect_networks nws)"
    by (cases "collect_networks nws") auto
  with collect_networks_addresses[OF this] show ?thesis
    by (auto simp: addressed_def list_ex_iff)
qed

lemma all_addressed_register: "all_addressed self \<Longrightarrow> all_addressed (snd (register p self))"
proof (cases p)
  case EmptyDict
  assume "all_addressed self"
  with EmptyDict show ?thesis by simp
next
  case (ContainerObj c)
  assume a: "all_addressed self"
  show ?thesis
    using a ContainerObj addressed_this
      set_update_subset[of "c_id c" _ "byid self"]
      set_update_subset[of "strip_slash (c_name c)" _ "byname self"]
    by (fastforce simp: Let_def all_addressed_def list_all_iff split: option.splits)
qed

lemma all_addressed_unregister: "all_addressed self \<Longrightarrow> all_addressed (snd (unregister p self))"
proof (cases p)
  case EmptyDict
  assume "all_addressed self"
  with EmptyDict show ?thesis by simp
next
  case (ContainerObj c)
  assume a: "all_addressed self"
  show ?thesis
    using a ContainerObj
      set_delete_subset[of "c_id c" "byid self"]
      set_delete_subset[of "strip_slash (c_name c)" "byname self"]
    by (fastforce simp: Let_def all_addressed_def list_all_iff)
qed

lemma all_addressed_update_hosts: "all_addressed self \<Longrightarrow> all_addressed (snd (update_hosts self))"
  by (simp add: update_hosts_def all_addressed_def Let_def split: option.splits)

lemma all_addressed_and_then:
  assumes "all_addressed (snd r)" and "\<And>s. all_addressed s \<Longrightarrow> all_addressed (snd (f s))"
  shows "all_addressed (snd (and_then r f))"
  using assms by (cases r) (auto simp: and_then_def split: option.splits)

lemma all_addressed_apply_ops: "all_addressed self \<Longrightarrow> all_addressed (snd (apply_ops ops self))"
proof (induction ops arbitrary: self)
  case Nil
  then show ?case by simp
next
  case (Cons x xs)
  have "all_addressed (snd (apply_op x self))"
    using Cons.prems by (cases x) (simp_all add: all_addressed_register all_addressed_unregister)
  then show ?case using Cons.IH by (simp add: all_addressed_and_then)
qed

lemma all_addressed_register_all: "all_addressed self \<Longrightarrow> all_addressed (snd (register_all cs self))"
  by (induction cs arbitrary: self)
    (simp_all add: all_addressed_and_then all_addressed_register del: register.simps)

lemma all_addressed_dispatch: "all_addressed self \<Longrightarrow> all_addressed (snd (dispatch ev p self))"
  by (simp add: dispatch_def handle_start_def handle_die_def all_addressed_and_then
      all_addressed_register all_addressed_unregister all_addressed_update_hosts)

lemma all_addressed_process_event: "all_addressed self \<Longrightarrow> all_addressed (snd (process_event d self))"
  by (simp add: process_event_def all_addressed_dispatch
      split: prod.splits sum.splits error.splits)

lemma all_addressed_events_loop: "all_addressed self \<Longrightarrow> all_addressed (snd (events_loop ds self))"
  by (induction ds arbitrary: self) (simp_all add: all_addressed_and_then all_addressed_process_event)

lemma all_addressed_run: "all_addressed self \<Longrightarrow> all_addressed (snd (run running ds self))"
  by (simp add: run_def scan_def all_addressed_and_then all_addressed_register_all
      all_addressed_update_hosts all_addressed_events_loop)

lemma all_addressed_init: "all_addressed (init file d upd)"
  by (simp add: all_addressed_def init_def)

subsection \<open>Facts about the file section editor\<close>

text \<open>
  Line ends as the program sees them: a carriage return alone ends a line, and a
  carriage return with a line feed ends one line, not two.
\<close>

lemma readlines_carriage_return:
  "readlines [CHR ''a'', CHR 0x0D, CHR ''b'', CHR 0x0A] =
     [[CHR ''a'', CHR 0x0A], [CHR ''b'', CHR 0x0A]]"
  by (simp add: readlines_def)

lemma readlines_carriage_return_line_feed:
  "readlines [CHR ''a'', CHR 0x0D, CHR 0x0A, CHR ''b''] = [[CHR ''a'', CHR 0x0A], [CHR ''b'']]"
  by (simp add: readlines_def)

lemma render_after_carriage_return:
  "new_hostsfile (init None ''docker'' False)
     (readlines ([CHR ''x'', CHR 0x0D] @ hostfile_start_marker @ [CHR 0x0A] @ ''old'' @ [CHR 0x0A]
        @ hostfile_end_marker @ [CHR 0x0A]))
   = [''x'', hostfile_start_marker, hostfile_end_marker]"
  by (simp add: init_def new_hostsfile_def new_section_def entries_def
      remove_section_def del_slice_def readlines_def strip_def lstrip_def rstrip_def
      is_space_def hostfile_start_marker_def hostfile_end_marker_def)

lemma index_of_None: "index_of x xs = None \<longleftrightarrow> x \<notin> set xs"
  by (induction xs) auto

lemma index_of_first:
  "index_of x xs = Some i \<Longrightarrow> i < length xs \<and> xs ! i = x \<and> x \<notin> set (take i xs)"
proof (induction xs arbitrary: i)
  case Nil
  then show ?case by simp
next
  case (Cons y ys)
  show ?case
  proof (cases "y = x")
    case True
    with Cons.prems show ?thesis by simp
  next
    case False
    with Cons.prems obtain j where j: "index_of x ys = Some j" "i = Suc j" by auto
    from Cons.IH[OF j(1)] False j(2) show ?thesis by simp
  qed
qed

lemma index_of_append: "x \<notin> set xs \<Longrightarrow> index_of x (xs @ x # ys) = Some (length xs)"
  by (induction xs) auto

lemma del_slice_nths: "del_slice s (Suc e) xs = nths xs (- {s..e})"
proof -
  have "nths xs (- {s..e}) = nths (take s xs @ drop s xs) (- {s..e})" by simp
  also have "\<dots> = nths (take s xs) (- {s..e}) @
      nths (drop s xs) {j. j + length (take s xs) \<in> - {s..e}}"
    by (rule nths_append)
  also have "nths (take s xs) (- {s..e}) = take s xs"
    by (rule nths_all) auto
  also have "nths (drop s xs) {j. j + length (take s xs) \<in> - {s..e}} = drop (max s (Suc e)) xs"
  proof (cases "s \<le> length xs")
    case True
    then have "{j. j + length (take s xs) \<in> - {s..e}} = {j. Suc e - s \<le> j}" by auto
    then have "nths (drop s xs) {j. j + length (take s xs) \<in> - {s..e}} = drop (Suc e - s) (drop s xs)"
      by (simp add: drop_eq_nths)
    also have "\<dots> = drop (max s (Suc e)) xs" by (simp add: max_def)
    finally show ?thesis .
  next
    case False
    then show ?thesis by simp
  qed
  finally show ?thesis by (simp add: del_slice_def)
qed

lemma remove_section_found:
  assumes "index_of hostfile_start_marker ls = Some s" and "index_of hostfile_end_marker ls = Some e"
  shows "remove_section ls = nths ls (- {s..e})"
  using assms by (simp add: remove_section_def del_slice_nths)

lemma remove_section_prefix:
  assumes "index_of hostfile_start_marker ls = Some s" and "index_of hostfile_end_marker ls = Some e"
    and "i < s"
  shows "remove_section ls ! i = ls ! i"
proof -
  from index_of_first[OF assms(1)] have "s < length ls" by simp
  with assms show ?thesis
    by (simp add: remove_section_def del_slice_def nth_append)
qed

lemma remove_section_none:
  assumes "hostfile_start_marker \<notin> set ls \<or> hostfile_end_marker \<notin> set ls \<or>
     (\<exists>s e. index_of hostfile_start_marker ls = Some s \<and> index_of hostfile_end_marker ls = Some e \<and> e < s)"
  shows "remove_section ls = ls"
proof -
  have "del_slice s (e + 1) ls = ls" if "e < s" for s e :: nat
  proof -
    from that have "max s (e + 1) = s" by simp
    then show ?thesis by (simp add: del_slice_def)
  qed
  with assms show ?thesis
    by (auto simp: remove_section_def index_of_None[symmetric] split: option.splits)
qed

lemma markers_differ: "hostfile_start_marker \<noteq> hostfile_end_marker"
  by (simp add: hostfile_start_marker_def hostfile_end_marker_def)

lemma remove_section_block:
  assumes "hostfile_start_marker \<notin> set pre" and "hostfile_end_marker \<notin> set pre"
    and "hostfile_end_marker \<notin> set mid"
  shows "remove_section (pre @ [hostfile_start_marker] @ mid @ [hostfile_end_marker] @ post) = pre @ post"
proof -
  have s: "index_of hostfile_start_marker (pre @ [hostfile_start_marker] @ mid @ [hostfile_end_marker] @ post)
      = Some (length pre)"
    using assms(1) by (simp add: index_of_append)
  have "hostfile_end_marker \<notin> set (pre @ [hostfile_start_marker] @ mid)"
    using assms markers_differ by auto
  from index_of_append[OF this, of post]
  have e: "index_of hostfile_end_marker (pre @ [hostfile_start_marker] @ mid @ [hostfile_end_marker] @ post)
      = Some (length pre + 1 + length mid)"
    by simp
  show ?thesis
    unfolding remove_section_def s e by (simp add: del_slice_def max_def)
qed

lemma new_section_trace [simp]: "new_section (self\<lparr>trace := t\<rparr>) = new_section self"
  by (simp add: new_section_def entries_def)

lemma new_hostsfile_trace [simp]: "new_hostsfile (self\<lparr>trace := t\<rparr>) raw = new_hostsfile self raw"
  by (simp add: new_hostsfile_def)

lemma update_hosts_file:
  assumes "hostsfile self = Some content"
  shows "fst (update_hosts self) = None"
    and "hostsfile (snd (update_hosts self)) =
           Some (join [CHR 0x0A] (new_hostsfile self (readlines content)))"
    and "byid (snd (update_hosts self)) = byid self"
    and "byname (snd (update_hosts self)) = byname self"
  using assms by (simp_all add: update_hosts_def Let_def)

lemma join_snoc: "join sep (xs @ [x]) = (if xs = [] then x else join sep xs @ sep @ x)"
  by (induction sep xs rule: join.induct) auto

lemma join_append:
  "xs \<noteq> [] \<Longrightarrow> zs \<noteq> [] \<Longrightarrow> join sep (xs @ zs) = join sep xs @ sep @ join sep zs"
proof (induction sep xs rule: join.induct)
  case (1 sep)
  then show ?case by simp
next
  case (2 sep x)
  then show ?case by (cases zs) auto
next
  case (3 sep x y ys)
  then show ?case by simp
qed

lemma new_section_nonempty: "new_section self \<noteq> []"
  by (simp add: new_section_def)

lemma last_join_new_section: "last (join sep (kept @ new_section self)) = CHR ''=''"
proof -
  have "kept @ new_section self = (kept @ [hostfile_start_marker] @ entries self) @ [hostfile_end_marker]"
    by (simp add: new_section_def)
  then have "join sep (kept @ new_section self) =
      join sep (kept @ [hostfile_start_marker] @ entries self) @ sep @ hostfile_end_marker"
    by (simp only: join_snoc) simp
  then show ?thesis by (simp add: hostfile_end_marker_def)
qed

subsection \<open>Effects of a render\<close>

lemma update_hosts_returns:
  "fst (update_hosts self) = (if hostsfile self = None then Some OSError else None)"
  by (simp add: update_hosts_def Let_def split: option.splits)

lemma update_hosts_trace:
  "trace (snd (update_hosts self)) =
     trace self @ WritingHosts #
       (case hostsfile self of
          None \<Rightarrow> []
        | Some content \<Rightarrow>
            Wrote (join [CHR 0x0A] (new_hostsfile self (readlines content))) #
            (if onupdate self then [OnUpdate] else []))"
  by (simp add: update_hosts_def Let_def split: option.splits)

lemma handle_start_container:
  "handle_start (ContainerObj c) self = update_hosts (snd (register (ContainerObj c) self))"
  by (simp add: handle_start_def and_then_def Let_def split: option.splits)

lemma handle_die_returned:
  "fst (unregister p self) = None \<Longrightarrow> handle_die p self = update_hosts (snd (unregister p self))"
  by (cases "unregister p self") (simp add: handle_die_def and_then_def)

section \<open>The claims\<close>

subsection \<open>C1: an event whose container cannot be inspected\<close>

text \<open>
  C1 says that a lifecycle event whose container the runtime reports as not found is
  taken as a container without attributes, fails the "no network" check of
  \<^verbatim>\<open>register\<close>, leaves the index as it is, and that the loop goes on to the next event
  without an exception. The code does leave the index as it is, but for a \<^verbatim>\<open>start\<close>
  event the empty dictionary reaches \<^verbatim>\<open>container.name\<close> (line 93), AttributeError is
  raised, and the loop ends there, whatever events follow.
\<close>

theorem notfound_start_event_raises:
  "events_loop
     ((\<lparr>ev_Type = ''container'', ev_Action = ''start'', ev_id = i\<rparr>, Inl NotFound) # rest) self
   = (Some AttributeError, self)"
  by (simp add: process_event_def dispatch_def handle_start_def and_then_def)

subsection \<open>C2: lock-step of the two dictionaries\<close>

text \<open>
  C2 says that after every finite sequence of register and unregister operations from
  an empty registry the two dictionaries are in lock-step. That fails when an id comes
  back under another name: \<^verbatim>\<open>register\<close> guards the name only, so registering the id
  \<^verbatim>\<open>c1\<close> as \<^verbatim>\<open>a\<close> and then as \<^verbatim>\<open>b\<close> overwrites \<^verbatim>\<open>byid['c1']\<close> and leaves under \<^verbatim>\<open>a\<close> in
  \<^verbatim>\<open>byname\<close> a record that \<^verbatim>\<open>byid\<close> no longer holds.
\<close>

theorem lockstep_fails_for_renamed_id:
  "\<not> lockstep (snd (apply_ops
      [Register (ContainerObj \<lparr>c_name = ''/a'', c_id = ''c1'', c_networks = Some [(''app'', ''10.0.0.2'')]\<rparr>),
       Register (ContainerObj \<lparr>c_name = ''/b'', c_id = ''c1'', c_networks = Some [(''app'', ''10.0.0.2'')]\<rparr>)]
      (init None ''docker'' False)))"
  by (simp add: init_def has_key_def collect_networks_def Let_def and_then_def lockstep_def)

text \<open>
  C2 as amended: after every finite sequence of register and unregister operations
  from an empty registry in which every container id always comes with the same derived
  name, the two dictionaries are in lock-step; and when every operand is a container
  object, no operation of the sequence raises.
\<close>

theorem lockstep_when_one_name_per_id:
  assumes "one_name_per_id (op_containers ops)"
  shows "lockstep (snd (apply_ops ops (init file d upd))) \<and>
         (only_containers ops \<longrightarrow> fst (apply_ops ops (init file d upd)) = None)"
  using wf_index_lockstep[OF wf_index_apply_ops[OF wf_index_init, of ops "set (op_containers ops)"]]
    apply_ops_returns[OF wf_index_init, of ops "set (op_containers ops)"] assms
  by (simp add: consistent_iff)

theorem lockstep_when_one_name_per_id_witness:
  "one_name_per_id (op_containers
     [Register (ContainerObj \<lparr>c_name = ''/web'', c_id = ''c1'', c_networks = Some [(''app'', ''10.0.0.2'')]\<rparr>),
      Register (ContainerObj \<lparr>c_name = ''/db'', c_id = ''c2'', c_networks = Some [(''app'', ''10.0.0.3'')]\<rparr>),
      Unregister (ContainerObj \<lparr>c_name = ''/web'', c_id = ''c1'', c_networks = Some [(''app'', ''10.0.0.2'')]\<rparr>)]) \<and>
   only_containers
     [Register (ContainerObj \<lparr>c_name = ''/web'', c_id = ''c1'', c_networks = Some [(''app'', ''10.0.0.2'')]\<rparr>),
      Register (ContainerObj \<lparr>c_name = ''/db'', c_id = ''c2'', c_networks = Some [(''app'', ''10.0.0.3'')]\<rparr>),
      Unregister (ContainerObj \<lparr>c_name = ''/web'', c_id = ''c1'', c_networks = Some [(''app'', ''10.0.0.2'')]\<rparr>)] \<and>
   lockstep (snd (apply_ops
     [Register (ContainerObj \<lparr>c_name = ''/web'', c_id = ''c1'', c_networks = Some [(''app'', ''10.0.0.2'')]\<rparr>),
      Register (ContainerObj \<lparr>c_name = ''/db'', c_id = ''c2'', c_networks = Some [(''app'', ''10.0.0.3'')]\<rparr>),
      Unregister (ContainerObj \<lparr>c_name = ''/web'', c_id = ''c1'', c_networks = Some [(''app'', ''10.0.0.2'')]\<rparr>)]
     (init None ''docker'' False))) \<and>
   fst (apply_ops
     [Register (ContainerObj \<lparr>c_name = ''/web'', c_id = ''c1'', c_networks = Some [(''app'', ''10.0.0.2'')]\<rparr>),
      Register (ContainerObj \<lparr>c_name = ''/db'', c_id = ''c2'', c_networks = Some [(''app'', ''10.0.0.3'')]\<rparr>),
      Unregister (ContainerObj \<lparr>c_name = ''/web'', c_id = ''c1'', c_networks = Some [(''app'', ''10.0.0.2'')]\<rparr>)]
     (init None ''docker'' False)) = None"
  using lockstep_when_one_name_per_id
    [of "[Register (ContainerObj \<lparr>c_name = ''/web'', c_id = ''c1'', c_networks = Some [(''app'', ''10.0.0.2'')]\<rparr>),
          Register (ContainerObj \<lparr>c_name = ''/db'', c_id = ''c2'', c_networks = Some [(''app'', ''10.0.0.3'')]\<rparr>),
          Unregister (ContainerObj \<lparr>c_name = ''/web'', c_id = ''c1'', c_networks = Some [(''app'', ''10.0.0.2'')]\<rparr>)]"
        None "''docker''" False]
  by (simp add: one_name_per_id_def)

subsection \<open>C3: a render into a file that holds a section\<close>

text \<open>
  C3 says that a render into a file whose lines hold both markers removes exactly the
  lines from the start marker through the end marker before it adds the new section,
  and that every line before the old start marker is byte-identical afterwards, apart
  from trailing whitespace. The lines are read through \<^verbatim>\<open>strip()\<close> (line 150), which
  removes leading whitespace as well: a first line that begins with two spaces is
  written back without them, which is not its \<^verbatim>\<open>rstrip\<close>.
\<close>

theorem render_strips_leading_whitespace:
  "index_of hostfile_start_marker (map strip (readlines ''  127.0.0.1 lo\<newline># === start dnsthing ===\<newline># === end dnsthing ===\<newline>'')) = Some 1 \<and>
   index_of hostfile_end_marker (map strip (readlines ''  127.0.0.1 lo\<newline># === start dnsthing ===\<newline># === end dnsthing ===\<newline>'')) = Some 2 \<and>
   readlines ''  127.0.0.1 lo\<newline># === start dnsthing ===\<newline># === end dnsthing ===\<newline>'' ! 0 = ''  127.0.0.1 lo\<newline>'' \<and>
   rstrip (readlines ''  127.0.0.1 lo\<newline># === start dnsthing ===\<newline># === end dnsthing ===\<newline>'' ! 0) = ''  127.0.0.1 lo'' \<and>
   new_hostsfile (init (Some ''  127.0.0.1 lo\<newline># === start dnsthing ===\<newline># === end dnsthing ===\<newline>'') ''docker'' False) (readlines ''  127.0.0.1 lo\<newline># === start dnsthing ===\<newline># === end dnsthing ===\<newline>'') ! 0 = ''127.0.0.1 lo'' \<and>
   new_hostsfile (init (Some ''  127.0.0.1 lo\<newline># === start dnsthing ===\<newline># === end dnsthing ===\<newline>'') ''docker'' False) (readlines ''  127.0.0.1 lo\<newline># === start dnsthing ===\<newline># === end dnsthing ===\<newline>'') ! 0 \<noteq> rstrip (readlines ''  127.0.0.1 lo\<newline># === start dnsthing ===\<newline># === end dnsthing ===\<newline>'' ! 0) \<and>
   hostsfile (snd (update_hosts (init (Some ''  127.0.0.1 lo\<newline># === start dnsthing ===\<newline># === end dnsthing ===\<newline>'') ''docker'' False)))
     = Some ''127.0.0.1 lo\<newline># === start dnsthing ===\<newline># === end dnsthing ===''"
  by (simp add: update_hosts_def Let_def init_def new_hostsfile_def new_section_def entries_def
      remove_section_def del_slice_def readlines_def strip_def lstrip_def rstrip_def
      is_space_def hostfile_start_marker_def hostfile_end_marker_def)

text \<open>
  C3 as amended: a render into a file whose stripped lines hold both markers, the first
  start marker at position \<open>s\<close> and the first end marker at position \<open>e\<close>, writes
  the stripped lines without those at the positions \<open>s\<close> through \<open>e\<close>, followed by
  the new section; every line before the old start marker is the line as read with its
  leading and trailing whitespace stripped.
\<close>

theorem render_replaces_section:
  assumes "hostsfile self = Some content"
    and "index_of hostfile_start_marker (map strip (readlines content)) = Some s"
    and "index_of hostfile_end_marker (map strip (readlines content)) = Some e"
  shows "fst (update_hosts self) = None \<and>
         hostsfile (snd (update_hosts self)) =
           Some (join [CHR 0x0A]
             (nths (map strip (readlines content)) (- {s..e}) @ new_section self)) \<and>
         (\<forall>i<s. (nths (map strip (readlines content)) (- {s..e}) @ new_section self) ! i
                  = strip (readlines content ! i))"
proof -
  let ?L = "map strip (readlines content)"
  have kept: "remove_section ?L = nths ?L (- {s..e})"
    using assms(2,3) by (rule remove_section_found)
  have written: "hostsfile (snd (update_hosts self)) =
      Some (join [CHR 0x0A] (nths ?L (- {s..e}) @ new_section self))"
    using update_hosts_file(2)[OF assms(1)] kept by (simp add: new_hostsfile_def)
  have pre: "(nths ?L (- {s..e}) @ new_section self) ! i = strip (readlines content ! i)"
    if "i < s" for i
  proof -
    from index_of_first[OF assms(2)] have s: "s < length ?L" by simp
    then have "s \<le> length (remove_section ?L)"
      using assms(2,3) by (simp add: remove_section_def del_slice_def)
    with that have "(remove_section ?L @ new_section self) ! i = remove_section ?L ! i"
      by (simp add: nth_append)
    also have "\<dots> = ?L ! i" using assms(2,3) that by (rule remove_section_prefix)
    also have "\<dots> = strip (readlines content ! i)" using that s by simp
    finally show ?thesis by (simp add: kept)
  qed
  from update_hosts_file(1)[OF assms(1)] written pre show ?thesis by blast
qed

theorem render_replaces_section_witness:
  "hostsfile (init (Some ''127.0.0.1 lo\<newline># === start dnsthing ===\<newline>10.0.0.9 old.app.docker\<newline># === end dnsthing ===\<newline>::1 ip6\<newline>'') ''docker'' False) = Some ''127.0.0.1 lo\<newline># === start dnsthing ===\<newline>10.0.0.9 old.app.docker\<newline># === end dnsthing ===\<newline>::1 ip6\<newline>'' \<and>
   index_of hostfile_start_marker (map strip (readlines ''127.0.0.1 lo\<newline># === start dnsthing ===\<newline>10.0.0.9 old.app.docker\<newline># === end dnsthing ===\<newline>::1 ip6\<newline>'')) = Some 1 \<and>
   index_of hostfile_end_marker (map strip (readlines ''127.0.0.1 lo\<newline># === start dnsthing ===\<newline>10.0.0.9 old.app.docker\<newline># === end dnsthing ===\<newline>::1 ip6\<newline>'')) = Some 3 \<and>
   hostsfile (snd (update_hosts (init (Some ''127.0.0.1 lo\<newline># === start dnsthing ===\<newline>10.0.0.9 old.app.docker\<newline># === end dnsthing ===\<newline>::1 ip6\<newline>'') ''docker'' False)))
     = Some (join [CHR 0x0A] (nths (map strip (readlines ''127.0.0.1 lo\<newline># === start dnsthing ===\<newline>10.0.0.9 old.app.docker\<newline># === end dnsthing ===\<newline>::1 ip6\<newline>'')) (- {1..3}) @ new_section (init (Some ''127.0.0.1 lo\<newline># === start dnsthing ===\<newline>10.0.0.9 old.app.docker\<newline># === end dnsthing ===\<newline>::1 ip6\<newline>'') ''docker'' False))) \<and>
   hostsfile (snd (update_hosts (init (Some ''127.0.0.1 lo\<newline># === start dnsthing ===\<newline>10.0.0.9 old.app.docker\<newline># === end dnsthing ===\<newline>::1 ip6\<newline>'') ''docker'' False)))
     = Some ''127.0.0.1 lo\<newline>::1 ip6\<newline># === start dnsthing ===\<newline># === end dnsthing ==='' \<and>
   (nths (map strip (readlines ''127.0.0.1 lo\<newline># === start dnsthing ===\<newline>10.0.0.9 old.app.docker\<newline># === end dnsthing ===\<newline>::1 ip6\<newline>'')) (- {1..3}) @ new_section (init (Some ''127.0.0.1 lo\<newline># === start dnsthing ===\<newline>10.0.0.9 old.app.docker\<newline># === end dnsthing ===\<newline>::1 ip6\<newline>'') ''docker'' False)) ! 0 = strip (readlines ''127.0.0.1 lo\<newline># === start dnsthing ===\<newline>10.0.0.9 old.app.docker\<newline># === end dnsthing ===\<newline>::1 ip6\<newline>'' ! 0)"
proof -
  have f: "hostsfile (init (Some ''127.0.0.1 lo\<newline># === start dnsthing ===\<newline>10.0.0.9 old.app.docker\<newline># === end dnsthing ===\<newline>::1 ip6\<newline>'') ''docker'' False) = Some ''127.0.0.1 lo\<newline># === start dnsthing ===\<newline>10.0.0.9 old.app.docker\<newline># === end dnsthing ===\<newline>::1 ip6\<newline>''"
    by (simp add: init_def)
  have s: "index_of hostfile_start_marker (map strip (readlines ''127.0.0.1 lo\<newline># === start dnsthing ===\<newline>10.0.0.9 old.app.docker\<newline># === end dnsthing ===\<newline>::1 ip6\<newline>'')) = Some 1"
    by (simp add: readlines_def strip_def lstrip_def rstrip_def is_space_def
        hostfile_start_marker_def)
  have e: "index_of hostfile_end_marker (map strip (readlines ''127.0.0.1 lo\<newline># === start dnsthing ===\<newline>10.0.0.9 old.app.docker\<newline># === end dnsthing ===\<newline>::1 ip6\<newline>'')) = Some 3"
    by (simp add: readlines_def strip_def lstrip_def rstrip_def is_space_def
        hostfile_end_marker_def)
  have w: "hostsfile (snd (update_hosts (init (Some ''127.0.0.1 lo\<newline># === start dnsthing ===\<newline>10.0.0.9 old.app.docker\<newline># === end dnsthing ===\<newline>::1 ip6\<newline>'') ''docker'' False)))
     = Some ''127.0.0.1 lo\<newline>::1 ip6\<newline># === start dnsthing ===\<newline># === end dnsthing ===''"
    by (simp add: update_hosts_def Let_def init_def new_hostsfile_def new_section_def entries_def
        remove_section_def del_slice_def readlines_def strip_def lstrip_def rstrip_def
        is_space_def hostfile_start_marker_def hostfile_end_marker_def)
  from render_replaces_section[OF f s e] f s e w show ?thesis by blast
qed

subsection \<open>C4: unregister\<close>

text \<open>
  C4 says that \<^verbatim>\<open>unregister\<close> of a container whose id is present removes the record of
  that id from \<^verbatim>\<open>byid\<close> and the name of that record from \<^verbatim>\<open>byname\<close>, and that an absent
  id changes nothing and raises nothing. The code deletes from \<^verbatim>\<open>byname\<close> the name the
  container has now, not the name of the stored record: for a container registered as
  \<^verbatim>\<open>a\<close> and since renamed \<^verbatim>\<open>b\<close>, the record leaves \<^verbatim>\<open>byid\<close>, KeyError is raised, and
  the name \<^verbatim>\<open>a\<close> stays in \<^verbatim>\<open>byname\<close>.
\<close>

theorem unregister_renamed_raises:
  "unregister
     (ContainerObj \<lparr>c_name = ''/b'', c_id = ''c1'', c_networks = Some [(''app'', ''10.0.0.2'')]\<rparr>)
     (snd (register
        (ContainerObj \<lparr>c_name = ''/a'', c_id = ''c1'', c_networks = Some [(''app'', ''10.0.0.2'')]\<rparr>)
        (init None ''docker'' False)))
   = (Some KeyError,
      \<lparr>domain = ''docker'', onupdate = False,
       byname = [(''a'', \<lparr>h_name = ''a'', h_id = ''c1'', h_networks = [(''app'', ''10.0.0.2'')]\<rparr>)],
       byid = [], hostsfile = None, trace = []\<rparr>)"
  by (simp add: init_def has_key_def collect_networks_def Let_def)

subsection \<open>C5: one render for each handled event\<close>

text \<open>
  C5 says that every handled \<^verbatim>\<open>start\<close> or \<^verbatim>\<open>die\<close> event triggers exactly one render,
  also when the registration changed nothing, and that the post-update action runs
  once after each render that completes and not at all when the render fails. For the
  empty dictionary that stands for a container that was not found, both handlers raise
  before they reach \<^verbatim>\<open>update_hosts\<close>: the state, and the trace of effects in it, is
  returned as it was, so nothing is rendered.
\<close>

theorem handlers_on_empty_dict_do_not_render:
  "handle_start EmptyDict self = (Some AttributeError, self) \<and>
   handle_die EmptyDict self = (Some AttributeError, self)"
  by (simp add: handle_start_def handle_die_def and_then_def)

subsection \<open>C6: a name that is taken\<close>

text \<open>
  C6: when two containers have the same derived name and the first is registered (its
  record is the one \<^verbatim>\<open>byname\<close> holds for that name), registering the second changes
  neither dictionary, and \<^verbatim>\<open>byname\<close> at that name is still the record of the first.
\<close>

theorem register_taken_name_unchanged:
  assumes "strip_slash (c_name c2) = strip_slash (c_name c1)"
    and "map_of (byname self) (strip_slash (c_name c1)) = Some r1"
    and "h_id r1 = c_id c1"
  shows "register (ContainerObj c2) self = (None, self) \<and>
         map_of (byname (snd (register (ContainerObj c2) self))) (strip_slash (c_name c2)) = Some r1"
  using assms by (simp add: has_key_map_of)

theorem register_taken_name_unchanged_witness:
  "register (ContainerObj \<lparr>c_name = ''web'', c_id = ''c2'', c_networks = Some [(''app'', ''10.0.0.3'')]\<rparr>)
     (snd (register
        (ContainerObj \<lparr>c_name = ''/web'', c_id = ''c1'', c_networks = Some [(''app'', ''10.0.0.2'')]\<rparr>)
        (init None ''docker'' False)))
   = (None,
      \<lparr>domain = ''docker'', onupdate = False,
       byname = [(''web'', \<lparr>h_name = ''web'', h_id = ''c1'', h_networks = [(''app'', ''10.0.0.2'')]\<rparr>)],
       byid = [(''c1'', \<lparr>h_name = ''web'', h_id = ''c1'', h_networks = [(''app'', ''10.0.0.2'')]\<rparr>)],
       hostsfile = None, trace = []\<rparr>)"
  using register_taken_name_unchanged
    [of "\<lparr>c_name = ''web'', c_id = ''c2'', c_networks = Some [(''app'', ''10.0.0.3'')]\<rparr>"
        "\<lparr>c_name = ''/web'', c_id = ''c1'', c_networks = Some [(''app'', ''10.0.0.2'')]\<rparr>"
        "snd (register
           (ContainerObj \<lparr>c_name = ''/web'', c_id = ''c1'', c_networks = Some [(''app'', ''10.0.0.2'')]\<rparr>)
           (init None ''docker'' False))"
        "\<lparr>h_name = ''web'', h_id = ''c1'', h_networks = [(''app'', ''10.0.0.2'')]\<rparr>"]
  by (simp add: init_def has_key_def collect_networks_def Let_def)

subsection \<open>C7: containers without an addressed network\<close>

text \<open>
  C7: for a container whose network dictionary is absent, empty, or holds only empty
  addresses, \<^verbatim>\<open>register\<close> leaves \<^verbatim>\<open>byid\<close> and \<^verbatim>\<open>byname\<close> as they are; and so no
  record without an addressed network is ever in the index, after any sequence of
  register and unregister operations and after any run of the program, from an empty
  registry.
\<close>

theorem no_address_never_registered:
  "(no_address c \<longrightarrow> register (ContainerObj c) self = (None, self)) \<and>
   all_addressed (snd (apply_ops ops (init file d upd))) \<and>
   all_addressed (snd (run running ds (init file d upd)))"
  by (auto simp: no_address_def Let_def collect_networks_no_address
      all_addressed_apply_ops all_addressed_run all_addressed_init split: option.splits)

theorem no_address_never_registered_witness:
  "no_address \<lparr>c_name = ''/h'', c_id = ''c3'', c_networks = Some [(''host'', [])]\<rparr> \<and>
   register (ContainerObj \<lparr>c_name = ''/h'', c_id = ''c3'', c_networks = Some [(''host'', [])]\<rparr>)
     (init None ''docker'' False) = (None, init None ''docker'' False) \<and>
   all_addressed (snd (apply_ops
     [Register (ContainerObj \<lparr>c_name = ''/web'', c_id = ''c1'',
        c_networks = Some [(''app'', ''10.0.0.2''), (''host'', [])]\<rparr>)]
     (init None ''docker'' False)))"
  using no_address_never_registered
    [of "\<lparr>c_name = ''/h'', c_id = ''c3'', c_networks = Some [(''host'', [])]\<rparr>"
        "init None ''docker'' False"
        "[Register (ContainerObj \<lparr>c_name = ''/web'', c_id = ''c1'',
            c_networks = Some [(''app'', ''10.0.0.2''), (''host'', [])]\<rparr>)]"
        None "''docker''" False "[]" "[]"]
  by (simp add: no_address_def)

subsection \<open>C8: registering twice\<close>

text \<open>
  C8: registering the same container twice in a row gives, after the second call, the
  \<^verbatim>\<open>byid\<close> and \<^verbatim>\<open>byname\<close> that the first call left; the second call returns the state
  it was given and raises nothing.
\<close>

theorem register_twice_idempotent:
  "register (ContainerObj c) (snd (register (ContainerObj c) self))
     = (None, snd (register (ContainerObj c) self))"
  by (simp add: Let_def has_key_update split: option.splits)

subsection \<open>C9: missing or malformed markers\<close>

text \<open>
  C9 says that when a marker is missing, or the end marker comes before the start
  marker, the render raises nothing, removes no line, and appends a well-formed section
  after the prior content, which is otherwise undisturbed. No line is removed and the
  section is appended, but the prior lines are written back stripped: a line that
  begins with a tab loses it, so the prior content is changed even up to trailing
  whitespace.
\<close>

theorem render_without_section_strips_lines:
  "hostfile_start_marker \<notin> set (map strip (readlines [CHR 0x09, CHR ''g'', CHR ''w'', CHR 0x0A])) \<and>
   hostfile_end_marker \<notin> set (map strip (readlines [CHR 0x09, CHR ''g'', CHR ''w'', CHR 0x0A])) \<and>
   map rstrip (readlines [CHR 0x09, CHR ''g'', CHR ''w'', CHR 0x0A]) = [[CHR 0x09, CHR ''g'', CHR ''w'']] \<and>
   new_hostsfile (init (Some [CHR 0x09, CHR ''g'', CHR ''w'', CHR 0x0A]) ''docker'' False) (readlines [CHR 0x09, CHR ''g'', CHR ''w'', CHR 0x0A]) = [''gw'', hostfile_start_marker, hostfile_end_marker] \<and>
   new_hostsfile (init (Some [CHR 0x09, CHR ''g'', CHR ''w'', CHR 0x0A]) ''docker'' False) (readlines [CHR 0x09, CHR ''g'', CHR ''w'', CHR 0x0A]) \<noteq> map rstrip (readlines [CHR 0x09, CHR ''g'', CHR ''w'', CHR 0x0A]) @ new_section (init (Some [CHR 0x09, CHR ''g'', CHR ''w'', CHR 0x0A]) ''docker'' False) \<and>
   hostsfile (snd (update_hosts (init (Some [CHR 0x09, CHR ''g'', CHR ''w'', CHR 0x0A]) ''docker'' False))) = Some ''gw\<newline># === start dnsthing ===\<newline># === end dnsthing ===''"
  by (simp add: update_hosts_def Let_def init_def new_hostsfile_def new_section_def entries_def
      remove_section_def del_slice_def readlines_def strip_def lstrip_def rstrip_def
      is_space_def hostfile_start_marker_def hostfile_end_marker_def)

text \<open>
  C9 as amended: when a marker is missing among the stripped lines, or the first end
  marker comes before the first start marker, the render raises nothing, removes no
  line, and writes every prior line, stripped of leading and trailing whitespace, in
  the order read, followed by the start marker, the entries and the end marker.
\<close>

theorem render_without_section_appends:
  assumes "hostsfile self = Some content"
    and "hostfile_start_marker \<notin> set (map strip (readlines content)) \<or>
         hostfile_end_marker \<notin> set (map strip (readlines content)) \<or>
         (\<exists>s e. index_of hostfile_start_marker (map strip (readlines content)) = Some s \<and>
                index_of hostfile_end_marker (map strip (readlines content)) = Some e \<and> e < s)"
  shows "fst (update_hosts self) = None \<and>
         hostsfile (snd (update_hosts self)) =
           Some (join [CHR 0x0A] (map strip (readlines content) @
                   [hostfile_start_marker] @ entries self @ [hostfile_end_marker]))"
  using update_hosts_file(1,2)[OF assms(1)] remove_section_none[OF assms(2)]
  by (simp add: new_hostsfile_def new_section_def)

theorem render_without_section_appends_witness:
  "hostsfile (init (Some ''127.0.0.1 lo\<newline># === start dnsthing ===\<newline>stale\<newline>'') ''docker'' True) = Some ''127.0.0.1 lo\<newline># === start dnsthing ===\<newline>stale\<newline>'' \<and>
   hostfile_end_marker \<notin> set (map strip (readlines ''127.0.0.1 lo\<newline># === start dnsthing ===\<newline>stale\<newline>'')) \<and>
   fst (update_hosts (init (Some ''127.0.0.1 lo\<newline># === start dnsthing ===\<newline>stale\<newline>'') ''docker'' True)) = None \<and>
   hostsfile (snd (update_hosts (init (Some ''127.0.0.1 lo\<newline># === start dnsthing ===\<newline>stale\<newline>'') ''docker'' True))) =
     Some (join [CHR 0x0A] (map strip (readlines ''127.0.0.1 lo\<newline># === start dnsthing ===\<newline>stale\<newline>'') @
             [hostfile_start_marker] @ entries (init (Some ''127.0.0.1 lo\<newline># === start dnsthing ===\<newline>stale\<newline>'') ''docker'' True) @ [hostfile_end_marker])) \<and>
   hostsfile (snd (update_hosts (init (Some ''127.0.0.1 lo\<newline># === start dnsthing ===\<newline>stale\<newline>'') ''docker'' True))) =
     Some ''127.0.0.1 lo\<newline># === start dnsthing ===\<newline>stale\<newline># === start dnsthing ===\<newline># === end dnsthing ===''"
proof -
  have f: "hostsfile (init (Some ''127.0.0.1 lo\<newline># === start dnsthing ===\<newline>stale\<newline>'') ''docker'' True) = Some ''127.0.0.1 lo\<newline># === start dnsthing ===\<newline>stale\<newline>''"
    by (simp add: init_def)
  have m: "hostfile_end_marker \<notin> set (map strip (readlines ''127.0.0.1 lo\<newline># === start dnsthing ===\<newline>stale\<newline>''))"
    by (simp add: readlines_def strip_def lstrip_def rstrip_def is_space_def
        hostfile_end_marker_def)
  have w: "hostsfile (snd (update_hosts (init (Some ''127.0.0.1 lo\<newline># === start dnsthing ===\<newline>stale\<newline>'') ''docker'' True))) =
     Some ''127.0.0.1 lo\<newline># === start dnsthing ===\<newline>stale\<newline># === start dnsthing ===\<newline># === end dnsthing ===''"
    by (simp add: update_hosts_def Let_def init_def new_hostsfile_def new_section_def entries_def
        remove_section_def del_slice_def readlines_def strip_def lstrip_def rstrip_def
        is_space_def hostfile_start_marker_def hostfile_end_marker_def)
  from render_without_section_appends[OF f] f m w show ?thesis by blast
qed

subsection \<open>C10: the section is the last block of the file\<close>

text \<open>
  C10 says that after every render the managed section is the last block of the file,
  that lines which followed a previous section are preserved but moved to before the
  new section, and that the file is the lines joined by single line feeds with no line
  feed at the end. The position and the joining are as claimed, but the lines that
  followed are written back through \<^verbatim>\<open>strip()\<close> (line 150): a following line that
  begins with two spaces is not in the written file, even up to trailing whitespace;
  the stripped line is there in its place.
\<close>

theorem render_strips_following_lines:
  "readlines ''# === start dnsthing ===\<newline># === end dnsthing ===\<newline>  ::1 ip6\<newline>'' =
     [''# === start dnsthing ===\<newline>'', ''# === end dnsthing ===\<newline>'', ''  ::1 ip6\<newline>''] \<and>
   rstrip (readlines ''# === start dnsthing ===\<newline># === end dnsthing ===\<newline>  ::1 ip6\<newline>'' ! 2) = ''  ::1 ip6'' \<and>
   new_hostsfile (init (Some ''# === start dnsthing ===\<newline># === end dnsthing ===\<newline>  ::1 ip6\<newline>'') ''docker'' False) (readlines ''# === start dnsthing ===\<newline># === end dnsthing ===\<newline>  ::1 ip6\<newline>'') = [''::1 ip6'', hostfile_start_marker, hostfile_end_marker] \<and>
   rstrip (readlines ''# === start dnsthing ===\<newline># === end dnsthing ===\<newline>  ::1 ip6\<newline>'' ! 2) \<notin> set (new_hostsfile (init (Some ''# === start dnsthing ===\<newline># === end dnsthing ===\<newline>  ::1 ip6\<newline>'') ''docker'' False) (readlines ''# === start dnsthing ===\<newline># === end dnsthing ===\<newline>  ::1 ip6\<newline>'')) \<and>
   hostsfile (snd (update_hosts (init (Some ''# === start dnsthing ===\<newline># === end dnsthing ===\<newline>  ::1 ip6\<newline>'') ''docker'' False))) =
     Some ''::1 ip6\<newline># === start dnsthing ===\<newline># === end dnsthing ===''"
  by (simp add: update_hosts_def Let_def init_def new_hostsfile_def new_section_def entries_def
      remove_section_def del_slice_def readlines_def strip_def lstrip_def rstrip_def
      is_space_def hostfile_start_marker_def hostfile_end_marker_def)

text \<open>
  C10 as amended: after every render that completes, the file is the kept lines
  followed by the new section (start marker, entries, end marker), joined by single
  line feeds, so the text of the section ends the file and the last character is not a
  line feed; and when the lines read hold a section (a start marker, then the first end
  marker), the lines that followed it are kept, each stripped of leading and trailing
  whitespace, in order, after the stripped lines that preceded it and before the new
  section.
\<close>

theorem render_section_is_last:
  assumes "hostsfile self = Some content"
  shows "\<exists>kept. hostsfile (snd (update_hosts self)) =
             Some (join [CHR 0x0A] (kept @ [hostfile_start_marker] @ entries self @ [hostfile_end_marker])) \<and>
           join [CHR 0x0A] (kept @ [hostfile_start_marker] @ entries self @ [hostfile_end_marker]) =
             (if kept = [] then [] else join [CHR 0x0A] kept @ [CHR 0x0A]) @
             join [CHR 0x0A] ([hostfile_start_marker] @ entries self @ [hostfile_end_marker]) \<and>
           last (join [CHR 0x0A] (kept @ [hostfile_start_marker] @ entries self @ [hostfile_end_marker]))
             \<noteq> CHR 0x0A \<and>
           (\<forall>pre mid post.
              map strip (readlines content) =
                pre @ [hostfile_start_marker] @ mid @ [hostfile_end_marker] @ post \<and>
              hostfile_start_marker \<notin> set pre \<and> hostfile_end_marker \<notin> set pre \<and>
              hostfile_end_marker \<notin> set mid
              \<longrightarrow> kept = pre @ post) \<and>
           (\<forall>rpre rs rmid re rpost.
              readlines content = rpre @ [rs] @ rmid @ [re] @ rpost \<and>
              strip rs = hostfile_start_marker \<and> strip re = hostfile_end_marker \<and>
              hostfile_start_marker \<notin> set (map strip rpre) \<and>
              hostfile_end_marker \<notin> set (map strip rpre) \<and>
              hostfile_end_marker \<notin> set (map strip rmid)
              \<longrightarrow> kept = map strip rpre @ map strip rpost)"
proof -
  let ?L = "map strip (readlines content)"
  let ?sec = "[hostfile_start_marker] @ entries self @ [hostfile_end_marker]"
  have sec: "new_section self = ?sec" by (simp add: new_section_def)
  have 1: "hostsfile (snd (update_hosts self)) = Some (join [CHR 0x0A] (remove_section ?L @ ?sec))"
    using update_hosts_file(2)[OF assms] by (simp add: new_hostsfile_def new_section_def)
  have 2: "join [CHR 0x0A] (remove_section ?L @ ?sec) =
      (if remove_section ?L = [] then [] else join [CHR 0x0A] (remove_section ?L) @ [CHR 0x0A]) @
      join [CHR 0x0A] ?sec"
    using join_append[of "remove_section ?L" ?sec "[CHR 0x0A]"] by simp
  have 3: "last (join [CHR 0x0A] (remove_section ?L @ ?sec)) \<noteq> CHR 0x0A"
    using last_join_new_section[of "[CHR 0x0A]" "remove_section ?L" self] by (simp add: sec)
  have 4: "remove_section ?L = pre @ post"
    if "?L = pre @ [hostfile_start_marker] @ mid @ [hostfile_end_marker] @ post"
      "hostfile_start_marker \<notin> set pre" "hostfile_end_marker \<notin> set pre"
      "hostfile_end_marker \<notin> set mid" for pre mid post
    using remove_section_block[OF that(2,3,4), of post] that(1) by simp
  have 5: "remove_section ?L = map strip rpre @ map strip rpost"
    if "readlines content = rpre @ [rs] @ rmid @ [re] @ rpost"
      "strip rs = hostfile_start_marker" "strip re = hostfile_end_marker"
      "hostfile_start_marker \<notin> set (map strip rpre)"
      "hostfile_end_marker \<notin> set (map strip rpre)"
      "hostfile_end_marker \<notin> set (map strip rmid)" for rpre rs rmid re rpost
  proof -
    from that(1,2,3) have "?L = map strip rpre @ [hostfile_start_marker] @ map strip rmid @
        [hostfile_end_marker] @ map strip rpost"
      by simp
    from 4[OF this that(4,5,6)] show ?thesis .
  qed
  from 1 2 3 4 5 show ?thesis by blast
qed

theorem render_section_is_last_witness:
  "hostsfile (init (Some ''127.0.0.1 lo\<newline># === start dnsthing ===\<newline>10.0.0.9 old.app.docker\<newline># === end dnsthing ===\<newline>::1 ip6\<newline>'') ''docker'' True) = Some ''127.0.0.1 lo\<newline># === start dnsthing ===\<newline>10.0.0.9 old.app.docker\<newline># === end dnsthing ===\<newline>::1 ip6\<newline>'' \<and>
   map strip (readlines ''127.0.0.1 lo\<newline># === start dnsthing ===\<newline>10.0.0.9 old.app.docker\<newline># === end dnsthing ===\<newline>::1 ip6\<newline>'') =
     [''127.0.0.1 lo''] @ [hostfile_start_marker] @ [''10.0.0.9 old.app.docker''] @
     [hostfile_end_marker] @ [''::1 ip6''] \<and>
   hostfile_start_marker \<notin> set [''127.0.0.1 lo''] \<and>
   hostfile_end_marker \<notin> set [''127.0.0.1 lo''] \<and>
   hostfile_end_marker \<notin> set [''10.0.0.9 old.app.docker''] \<and>
   hostsfile (snd (update_hosts (init (Some ''127.0.0.1 lo\<newline># === start dnsthing ===\<newline>10.0.0.9 old.app.docker\<newline># === end dnsthing ===\<newline>::1 ip6\<newline>'') ''docker'' True))) =
     Some (join [CHR 0x0A] (([''127.0.0.1 lo''] @ [''::1 ip6'']) @
             [hostfile_start_marker] @ entries (init (Some ''127.0.0.1 lo\<newline># === start dnsthing ===\<newline>10.0.0.9 old.app.docker\<newline># === end dnsthing ===\<newline>::1 ip6\<newline>'') ''docker'' True) @ [hostfile_end_marker]))"
proof -
  have f: "hostsfile (init (Some ''127.0.0.1 lo\<newline># === start dnsthing ===\<newline>10.0.0.9 old.app.docker\<newline># === end dnsthing ===\<newline>::1 ip6\<newline>'') ''docker'' True) = Some ''127.0.0.1 lo\<newline># === start dnsthing ===\<newline>10.0.0.9 old.app.docker\<newline># === end dnsthing ===\<newline>::1 ip6\<newline>''"
    by (simp add: init_def)
  have l: "map strip (readlines ''127.0.0.1 lo\<newline># === start dnsthing ===\<newline>10.0.0.9 old.app.docker\<newline># === end dnsthing ===\<newline>::1 ip6\<newline>'') =
     [''127.0.0.1 lo''] @ [hostfile_start_marker] @ [''10.0.0.9 old.app.docker''] @
     [hostfile_end_marker] @ [''::1 ip6'']"
    by (simp add: readlines_def strip_def lstrip_def rstrip_def is_space_def
        hostfile_start_marker_def hostfile_end_marker_def)
  have m: "hostfile_start_marker \<notin> set [''127.0.0.1 lo'']"
    "hostfile_end_marker \<notin> set [''127.0.0.1 lo'']"
    "hostfile_end_marker \<notin> set [''10.0.0.9 old.app.docker'']"
    by (simp_all add: hostfile_start_marker_def hostfile_end_marker_def)
  from render_section_is_last[OF f] obtain kept where
    k: "hostsfile (snd (update_hosts (init (Some ''127.0.0.1 lo\<newline># === start dnsthing ===\<newline>10.0.0.9 old.app.docker\<newline># === end dnsthing ===\<newline>::1 ip6\<newline>'') ''docker'' True))) =
         Some (join [CHR 0x0A] (kept @ [hostfile_start_marker] @ entries (init (Some ''127.0.0.1 lo\<newline># === start dnsthing ===\<newline>10.0.0.9 old.app.docker\<newline># === end dnsthing ===\<newline>::1 ip6\<newline>'') ''docker'' True) @ [hostfile_end_marker]))"
    and r: "\<forall>pre mid post.
              map strip (readlines ''127.0.0.1 lo\<newline># === start dnsthing ===\<newline>10.0.0.9 old.app.docker\<newline># === end dnsthing ===\<newline>::1 ip6\<newline>'') =
                pre @ [hostfile_start_marker] @ mid @ [hostfile_end_marker] @ post \<and>
              hostfile_start_marker \<notin> set pre \<and> hostfile_end_marker \<notin> set pre \<and>
              hostfile_end_marker \<notin> set mid
              \<longrightarrow> kept = pre @ post"
    by blast
  from r l m have "kept = [''127.0.0.1 lo''] @ [''::1 ip6'']" by blast
  with k f l m show ?thesis by blast
qed

end
